theory Spec2Isabelle
  imports Complex_Main
begin

section \<open>Python strings\<close>

text \<open>
  A Python \<open>str\<close> is a sequence of Unicode code points, and \<open>len\<close> counts code points.
  A code point is modelled by its number. A decoded text can hold a lone surrogate code
  point (some codecs, such as \<open>unicode_escape\<close>, produce them), which no encoding accepts.
\<close>

type_synonym codepoint = nat
type_synonym pystr = "codepoint list"

definition NL :: codepoint where
  "NL = 10"

text \<open>A string literal of the source, as code points.\<close>

definition str_of :: "string \<Rightarrow> pystr" where
  "str_of s = map of_char s"

text \<open>
  \<open>str.isspace\<close> on one character; the class \<open>\s\<close> of \<open>re\<close> on a \<open>str\<close> pattern and the
  characters removed by \<open>str.strip()\<close> are the same set.
\<close>

definition is_space :: "codepoint \<Rightarrow> bool" where
  "is_space c \<longleftrightarrow>
     (9 \<le> c \<and> c \<le> 13) \<or> (28 \<le> c \<and> c \<le> 32) \<or> c = 133 \<or> c = 160 \<or> c = 5760 \<or>
     (8192 \<le> c \<and> c \<le> 8202) \<or> c = 8232 \<or> c = 8233 \<or> c = 8239 \<or> c = 8287 \<or> c = 12288"

text \<open>\<open>text.split('\n')\<close>: never empty, one more piece than there are newlines.\<close>

fun split_nl :: "pystr \<Rightarrow> pystr list" where
  "split_nl [] = [[]]"
| "split_nl (c # cs) =
     (if c = NL then [] # split_nl cs
      else (c # hd (split_nl cs)) # tl (split_nl cs))"

text \<open>\<open>sep.join(parts)\<close>.\<close>

fun join_str :: "pystr \<Rightarrow> pystr list \<Rightarrow> pystr" where
  "join_str sep [] = []"
| "join_str sep [x] = x"
| "join_str sep (x # y # ys) = x @ sep @ join_str sep (y # ys)"

text \<open>\<open>s.strip()\<close>: whitespace removed at both ends.\<close>

definition strip :: "pystr \<Rightarrow> pystr" where
  "strip s = rev (dropWhile is_space (rev (dropWhile is_space s)))"

text \<open>The number of bytes of one code point in UTF-8, and \<open>len(s.encode("utf-8"))\<close>.\<close>

definition utf8_width :: "codepoint \<Rightarrow> nat" where
  "utf8_width c = (if c < 128 then 1 else if c < 2048 then 2 else if c < 65536 then 3 else 4)"

definition utf8_len :: "pystr \<Rightarrow> int" where
  "utf8_len s = int (sum_list (map utf8_width s))"

section \<open>remove\_gutenberg\_boilerplate\<close>

definition remove_gutenberg_boilerplate :: "pystr \<Rightarrow> pystr" where
  "remove_gutenberg_boilerplate text =
     (let lines = split_nl text in
      if length lines \<le> 15 then text
      else join_str [NL] (drop 40 lines))"

section \<open>Blank-line normalisation\<close>

text \<open>
  \<open>re.sub(r'\n\s*\n', '\n\n', content)\<close>. At a newline the engine lets \<open>\s*\<close> take
  the whole run of whitespace that follows (\<open>\s\<close> matches a newline too) and then gives
  characters back one at a time until the next character is a newline: \<open>backtrack_nl k cs\<close>
  tries \<open>\s*\<close> with \<open>k\<close>, \<open>k - 1\<close>, ..., \<open>0\<close> characters of \<open>cs\<close>, the text after the
  first newline, and returns how many characters of \<open>cs\<close> the match takes. Matches are
  searched from left to right, and the search resumes where the last match ended.
\<close>

fun backtrack_nl :: "nat \<Rightarrow> pystr \<Rightarrow> nat option" where
  "backtrack_nl 0 cs = (if 0 < length cs \<and> cs ! 0 = NL then Some 1 else None)"
| "backtrack_nl (Suc k) cs =
     (if Suc k < length cs \<and> cs ! Suc k = NL then Some (Suc (Suc k))
      else backtrack_nl k cs)"

definition match_blank_run :: "pystr \<Rightarrow> nat option" where
  "match_blank_run cs = backtrack_nl (length (takeWhile is_space cs)) cs"

fun normalize_blank_lines :: "pystr \<Rightarrow> pystr" where
  "normalize_blank_lines [] = []"
| "normalize_blank_lines (c # cs) =
     (if c = NL then
        (case match_blank_run cs of
           Some n \<Rightarrow> NL # NL # normalize_blank_lines (drop n cs)
         | None \<Rightarrow> c # normalize_blank_lines cs)
      else c # normalize_blank_lines cs)"

section \<open>Exceptions, the file system and the language classifier\<close>

datatype py_error =
    UnicodeDecodeError
  | UnicodeEncodeError
  | OSError
  | LangDetectException
  | ZeroDivisionError

text \<open>
  \<open>len(content.encode("utf-8"))\<close>: the encoding raises on a lone surrogate, and gives
  \<open>utf8_len\<close> bytes otherwise.
\<close>

definition is_surrogate :: "codepoint \<Rightarrow> bool" where
  "is_surrogate c \<longleftrightarrow> 55296 \<le> c \<and> c \<le> 57343"

definition utf8_encode_len :: "pystr \<Rightarrow> py_error + int" where
  "utf8_encode_len s =
     (if list_ex is_surrogate s then Inl UnicodeEncodeError else Inr (utf8_len s))"

text \<open>
  \<open>print\<close> encodes what it writes with the encoding of stdout, given by the code points
  that this encoding has, and raises on any other. The fixed parts of the lines printed
  are ASCII: \<open>print_text\<close> is given the part of a line that comes from a file, its name
  or its content.
\<close>

definition print_text :: "(codepoint \<Rightarrow> bool) \<Rightarrow> pystr \<Rightarrow> py_error + unit" where
  "print_text encodable s = (if list_all encodable s then Inr () else Inl UnicodeEncodeError)"

fun print_lines :: "(codepoint \<Rightarrow> bool) \<Rightarrow> pystr list \<Rightarrow> py_error + unit" where
  "print_lines encodable [] = Inr ()"
| "print_lines encodable (l # ls) =
     (case print_text encodable l of
        Inl e \<Rightarrow> Inl e
      | Inr u \<Rightarrow> print_lines encodable ls)"

text \<open>
  The file system is an input: \<open>fs path encoding limit\<close> is what
  \<open>open(path, 'r', encoding=encoding)\<close> followed by \<open>read()\<close> (limit \<open>None\<close>) or
  \<open>read(n)\<close> (limit \<open>Some n\<close>) gives, the decoded text or the exception raised.
  Writing into the target directory is taken to succeed, and so is writing a log line of
  \<open>combine_files\<close>, which holds a file name and no content.
\<close>

type_synonym filesystem = "string \<Rightarrow> string \<Rightarrow> nat option \<Rightarrow> py_error + pystr"

text \<open>\<open>langdetect.detect\<close>: a language code, or the exception raised.\<close>

type_synonym detector = "pystr \<Rightarrow> py_error + string"

definition is_english_using_langdetect :: "detector \<Rightarrow> pystr \<Rightarrow> py_error + bool" where
  "is_english_using_langdetect detect text =
     (let sample = take 1000 text in
      case detect sample of
        Inr lang \<Rightarrow> Inr (lang = ''en'')
      | Inl LangDetectException \<Rightarrow> Inr False
      | Inl e \<Rightarrow> Inl e)"

section \<open>check\_english\_files\<close>

datatype scan_error =
    EmptyFile
  | FallbackEncodingError py_error
  | LanguageDetectionError
  | ProcessingError py_error

record lang_result =
  is_english :: bool
  language :: string
  error :: "scan_error option"

definition failed :: "scan_error \<Rightarrow> lang_result" where
  "failed e = \<lparr>is_english = False, language = ''unknown'', error = Some e\<rparr>"

text \<open>The body of one \<open>with open(...)\<close> block: read 1000 characters, strip, classify.\<close>

definition scan_block :: "filesystem \<Rightarrow> detector \<Rightarrow> string \<Rightarrow> string \<Rightarrow> py_error + lang_result" where
  "scan_block fs detect file_path encoding =
     (case fs file_path encoding (Some 1000) of
        Inl e \<Rightarrow> Inl e
      | Inr raw \<Rightarrow>
          (let content = strip raw in
           if content = [] then Inr (failed EmptyFile)
           else (case detect content of
                   Inl e \<Rightarrow> Inl e
                 | Inr detected_lang \<Rightarrow>
                     Inr \<lparr>is_english = (detected_lang = ''en''), language = detected_lang,
                          error = None\<rparr>)))"

text \<open>One iteration of the loop over the files, with its exception handlers in order.\<close>

definition check_file :: "filesystem \<Rightarrow> detector \<Rightarrow> string \<Rightarrow> lang_result" where
  "check_file fs detect file_path =
     (case scan_block fs detect file_path ''utf-8'' of
        Inr r \<Rightarrow> r
      | Inl UnicodeDecodeError \<Rightarrow>
          (case scan_block fs detect file_path ''latin1'' of
             Inr r \<Rightarrow> r
           | Inl e \<Rightarrow> failed (FallbackEncodingError e))
      | Inl LangDetectException \<Rightarrow> failed LanguageDetectionError
      | Inl e \<Rightarrow> failed (ProcessingError e))"

definition basename :: "string \<Rightarrow> string" where
  "basename p = rev (takeWhile (\<lambda>c. c \<noteq> CHR ''/'') (rev p))"

fun check_loop ::
  "filesystem \<Rightarrow> detector \<Rightarrow> (string \<rightharpoonup> lang_result) \<Rightarrow> string list \<Rightarrow> (string \<rightharpoonup> lang_result)" where
  "check_loop fs detect results [] = results"
| "check_loop fs detect results (file_path # rest) =
     check_loop fs detect (results(basename file_path \<mapsto> check_file fs detect file_path)) rest"

text \<open>
  \<open>is_dir\<close> is \<open>os.path.isdir(folder_path)\<close> and \<open>all_files\<close> the files that \<open>os.walk\<close>
  finds with a name ending in \<open>.txt\<close> or \<open>.txt.utf8\<close>.
\<close>

definition check_english_files ::
  "filesystem \<Rightarrow> detector \<Rightarrow> bool \<Rightarrow> string list \<Rightarrow> (string \<rightharpoonup> lang_result)" where
  "check_english_files fs detect is_dir all_files =
     (if \<not> is_dir then Map.empty else check_loop fs detect Map.empty all_files)"

section \<open>combine\_files\<close>

text \<open>The lines written with \<open>tqdm.write\<close>.\<close>

datatype log_event =
    FallbackWarning string
  | SkipNotEnglish string
  | SkipTooShort string

text \<open>
  One file \<open>combined_<shard_number>.txt\<close> written into the target directory:
  \<open>shard_text\<close> is the text written, \<open>documents\<close> the list it was joined from.
\<close>

record shard_file =
  shard_number :: nat
  documents :: "pystr list"
  shard_text :: pystr

record combine_state =
  current_content :: "pystr list"
  current_size :: int
  file_counter :: nat
  stat_en :: nat
  stat_other :: nat
  written :: "shard_file list"
  log :: "log_event list"

definition initial_state :: combine_state where
  "initial_state =
     \<lparr>current_content = [], current_size = 0, file_counter = 1, stat_en = 0, stat_other = 0,
      written = [], log = []\<rparr>"

text \<open>
  \<open>with open(target_file_path, "w") as target_file:
  target_file.write(separator.join(current_content))\<close>
\<close>

definition write_shard :: "pystr \<Rightarrow> combine_state \<Rightarrow> combine_state" where
  "write_shard separator s =
     s\<lparr>written := written s @
          [\<lparr>shard_number = file_counter s, documents = current_content s,
            shard_text = join_str separator (current_content s)\<rparr>]\<rparr>"

text \<open>
  The size accounting at the end of the loop body, for a cleaned text that is kept and
  that the encoding accepts: \<open>estimated_size\<close> is then \<open>utf8_len content\<close>.
\<close>

definition add_document :: "int \<Rightarrow> pystr \<Rightarrow> combine_state \<Rightarrow> pystr \<Rightarrow> combine_state" where
  "add_document max_size_mb separator s content =
     (let estimated_size = utf8_len content in
      if current_size s + estimated_size > max_size_mb * 1024 * 1024
      then (write_shard separator s)
             \<lparr>file_counter := file_counter s + 1,
              current_content := [content],
              current_size := estimated_size\<rparr>
      else s\<lparr>current_content := current_content s @ [content],
             current_size := current_size s + estimated_size\<rparr>)"

text \<open>
  Reading one file: the primary encoding, and the fallback encoding after a
  \<open>UnicodeDecodeError\<close>. An exception comes with the state reached when it was raised.
\<close>

definition read_content ::
  "filesystem \<Rightarrow> string \<Rightarrow> string \<Rightarrow> combine_state
     \<Rightarrow> (py_error \<times> combine_state) + (pystr \<times> combine_state)" where
  "read_content fs file_path fallback_encoding s =
     (case fs file_path ''utf-8'' None of
        Inr content \<Rightarrow> Inr (content, s)
      | Inl UnicodeDecodeError \<Rightarrow>
          (let s1 = s\<lparr>log := log s @ [FallbackWarning file_path]\<rparr> in
           case fs file_path fallback_encoding None of
             Inr content \<Rightarrow> Inr (content, s1)
           | Inl e \<Rightarrow> Inl (e, s1))
      | Inl e \<Rightarrow> Inl (e, s))"

text \<open>
  The loop body for one file. The encoding that measures the cleaned text is the first
  step of the size accounting; when it raises, the exception leaves the loop.
\<close>

definition process_file ::
  "filesystem \<Rightarrow> detector \<Rightarrow> int \<Rightarrow> pystr \<Rightarrow> string \<Rightarrow> combine_state \<Rightarrow> string
     \<Rightarrow> (py_error \<times> combine_state) + combine_state" where
  "process_file fs detect max_size_mb separator fallback_encoding s file_path =
     (case read_content fs file_path fallback_encoding s of
        Inl err \<Rightarrow> Inl err
      | Inr (content, s1) \<Rightarrow>
          (case is_english_using_langdetect detect content of
             Inl e \<Rightarrow> Inl (e, s1)
           | Inr english \<Rightarrow>
               if \<not> english then
                 Inr (s1\<lparr>log := log s1 @ [SkipNotEnglish file_path],
                         stat_other := stat_other s1 + 1\<rparr>)
               else
                 (let s2 = s1\<lparr>stat_en := stat_en s1 + 1\<rparr>;
                      content1 = remove_gutenberg_boilerplate content;
                      content2 = normalize_blank_lines content1 in
                  if length (strip content2) < 100 then
                    Inr (s2\<lparr>log := log s2 @ [SkipTooShort file_path]\<rparr>)
                  else
                    (case utf8_encode_len content2 of
                       Inl e \<Rightarrow> Inl (e, s2)
                     | Inr estimated_size \<Rightarrow>
                         Inr (add_document max_size_mb separator s2 content2)))))"

fun combine_loop ::
  "filesystem \<Rightarrow> detector \<Rightarrow> int \<Rightarrow> pystr \<Rightarrow> string \<Rightarrow> combine_state \<Rightarrow> string list
     \<Rightarrow> (py_error \<times> combine_state) + combine_state" where
  "combine_loop fs detect max_size_mb separator fallback_encoding s [] = Inr s"
| "combine_loop fs detect max_size_mb separator fallback_encoding s (file_path # rest) =
     (case process_file fs detect max_size_mb separator fallback_encoding s file_path of
        Inl err \<Rightarrow> Inl err
      | Inr s' \<Rightarrow> combine_loop fs detect max_size_mb separator fallback_encoding s' rest)"

text \<open>The flush after the loop: \<open>if current_content: ...\<close>.\<close>

definition final_flush :: "pystr \<Rightarrow> combine_state \<Rightarrow> combine_state" where
  "final_flush separator s = (if current_content s \<noteq> [] then write_shard separator s else s)"

text \<open>
  \<open>combine_files\<close> returns \<open>file_counter\<close>; the state is returned with it, for the files
  written and the statistics printed.
\<close>

definition combine_files ::
  "filesystem \<Rightarrow> detector \<Rightarrow> string list \<Rightarrow> int \<Rightarrow> pystr \<Rightarrow> string
     \<Rightarrow> (py_error \<times> combine_state) + (nat \<times> combine_state)" where
  "combine_files fs detect file_paths max_size_mb separator fallback_encoding =
     (case combine_loop fs detect max_size_mb separator fallback_encoding initial_state file_paths of
        Inl err \<Rightarrow> Inl err
      | Inr s \<Rightarrow> (let s' = final_flush separator s in Inr (file_counter s', s')))"

text \<open>
  The end of the main program: \<open>combine_files(all_files, args.output_dir,
  max_size_mb=args.max_size_mb)\<close> with the default separator and fallback encoding, then
  \<open>print(f"{file_counter} file(s) saved in ...")\<close>. \<open>files_saved_report\<close> is the number
  printed.
\<close>

definition main_combine ::
  "filesystem \<Rightarrow> detector \<Rightarrow> string list \<Rightarrow> int
     \<Rightarrow> (py_error \<times> combine_state) + (nat \<times> combine_state)" where
  "main_combine fs detect all_files max_size_mb =
     combine_files fs detect all_files max_size_mb (str_of ''<|endoftext|>'') ''latin1''"

definition files_saved_report :: "nat \<times> combine_state \<Rightarrow> nat" where
  "files_saved_report r = fst r"

section \<open>clean\_and\_verify\_gutenberg\<close>

text \<open>
  The statistics printed. \<open>removed_percent\<close> is the exact quotient; the program prints
  its floating-point value with two decimals.
\<close>

record cleanup_report =
  original_length :: nat
  original_line_count :: nat
  cleaned_length :: nat
  cleaned_line_count :: nat
  removed_chars :: int
  removed_percent :: rat

text \<open>Python's \<open>a / b\<close> on integers.\<close>

definition py_truediv :: "int \<Rightarrow> int \<Rightarrow> py_error + rat" where
  "py_truediv a b = (if b = 0 then Inl ZeroDivisionError else Inr (of_int a / of_int b))"

text \<open>The \<open>try\<close>/\<open>except UnicodeDecodeError\<close> that reads the file.\<close>

definition read_original :: "filesystem \<Rightarrow> string \<Rightarrow> string \<Rightarrow> py_error + pystr" where
  "read_original fs file_path fallback_encoding =
     (case fs file_path ''utf-8'' None of
        Inr original_content \<Rightarrow> Inr original_content
      | Inl UnicodeDecodeError \<Rightarrow> fs file_path fallback_encoding None
      | Inl e \<Rightarrow> Inl e)"

text \<open>
  The function prints, in this order: the base name of the file, the two lengths (digits
  only), the percentage of characters removed, the first 80 characters of each of the
  first 15 original lines, and the first 80 characters of those of the first 5 cleaned
  lines that are not blank. \<open>encodable\<close> is the encoding of stdout.
\<close>

definition clean_and_verify_gutenberg ::
  "(codepoint \<Rightarrow> bool) \<Rightarrow> filesystem \<Rightarrow> string \<Rightarrow> string
     \<Rightarrow> py_error + (pystr \<times> pystr \<times> cleanup_report)" where
  "clean_and_verify_gutenberg encodable fs file_path fallback_encoding =
     (case read_original fs file_path fallback_encoding of
        Inl e \<Rightarrow> Inl e
      | Inr original_content \<Rightarrow>
          (let cleaned_content = remove_gutenberg_boilerplate original_content;
               original_lines = split_nl original_content;
               cleaned_lines = split_nl cleaned_content;
               removed = int (length original_content) - int (length cleaned_content) in
           case print_text encodable (str_of (basename file_path)) of
             Inl e \<Rightarrow> Inl e
           | Inr named \<Rightarrow>
               (case py_truediv removed (int (length original_content)) of
                  Inl e \<Rightarrow> Inl e
                | Inr q \<Rightarrow>
                    (case print_lines encodable (map (take 80) (take 15 original_lines)) of
                       Inl e \<Rightarrow> Inl e
                     | Inr u \<Rightarrow>
                         (case print_lines encodable
                                 (map (take 80)
                                    (filter (\<lambda>line. strip line \<noteq> []) (take 5 cleaned_lines))) of
                            Inl e \<Rightarrow> Inl e
                          | Inr u' \<Rightarrow>
                              Inr (original_content, cleaned_content,
                                   \<lparr>original_length = length original_content,
                                    original_line_count = length original_lines,
                                    cleaned_length = length cleaned_content,
                                    cleaned_line_count = length cleaned_lines,
                                    removed_chars = removed,
                                    removed_percent = q * 100\<rparr>))))))"

section \<open>The byte budget of a shard\<close>

text \<open>
  The documents of a shard respect the budget of \<open>max_size_mb\<close> megabytes when their
  UTF-8 sizes add up to at most the budget, or when the shard is one document that is
  larger than the budget by itself.
\<close>

definition within_budget :: "int \<Rightarrow> pystr list \<Rightarrow> bool" where
  "within_budget max_size_mb docs \<longleftrightarrow>
     sum_list (map utf8_len docs) \<le> max_size_mb * 1024 * 1024 \<or>
     (length docs = 1 \<and> max_size_mb * 1024 * 1024 < utf8_len (hd docs))"

text \<open>
  The invariant of the loop: \<open>current_size\<close> is the size of the shard in progress, and
  that shard and every shard written are empty or respect the budget.
\<close>

definition acc_inv :: "int \<Rightarrow> combine_state \<Rightarrow> bool" where
  "acc_inv max_size_mb s \<longleftrightarrow>
     current_size s = sum_list (map utf8_len (current_content s)) \<and>
     (current_content s = [] \<or> within_budget max_size_mb (current_content s)) \<and>
     (\<forall>f \<in> set (written s). documents f = [] \<or> within_budget max_size_mb (documents f))"

section \<open>Lines of a text\<close>

lemma split_nl_nonempty: "split_nl s \<noteq> []"
  by (cases s) auto

lemma split_nl_no_newline: "l \<in> set (split_nl s) \<Longrightarrow> NL \<notin> set l"
proof (induction s arbitrary: l)
  case Nil
  then show ?case by simp
next
  case (Cons c cs)
  obtain h t where ht: "split_nl cs = h # t"
    using split_nl_nonempty [of cs] by (cases "split_nl cs") auto
  show ?case
  proof (cases "c = NL")
    case True
    with Cons show ?thesis by auto
  next
    case False
    with Cons ht show ?thesis by auto
  qed
qed

lemma split_nl_append_line: "NL \<notin> set l \<Longrightarrow> split_nl (l @ NL # s) = l # split_nl s"
  by (induction l) auto

lemma split_nl_line: "NL \<notin> set l \<Longrightarrow> split_nl l = [l]"
  by (induction l) auto

lemma split_join_lines:
  "ls \<noteq> [] \<Longrightarrow> \<forall>l \<in> set ls. NL \<notin> set l \<Longrightarrow> split_nl (join_str [NL] ls) = ls"
proof (induction ls)
  case Nil
  then show ?case by simp
next
  case (Cons x xs)
  then show ?case
    by (cases xs) (simp_all add: split_nl_line split_nl_append_line)
qed

lemma split_nl_chars: "l \<in> set (split_nl s) \<Longrightarrow> set l \<subseteq> set s"
proof (induction s arbitrary: l)
  case Nil
  then show ?case by simp
next
  case (Cons c cs)
  obtain h t where ht: "split_nl cs = h # t"
    using split_nl_nonempty [of cs] by (cases "split_nl cs") auto
  from Cons.IH [of h] ht have h: "set h \<subseteq> set cs"
    by simp
  from Cons.IH ht have t: "\<forall>k \<in> set t. set k \<subseteq> set cs"
    by simp
  show ?case
  proof (cases "c = NL")
    case True
    with Cons.prems ht h t show ?thesis by auto
  next
    case False
    with Cons.prems ht h t show ?thesis by auto
  qed
qed

lemma boilerplate_short:
  "length (split_nl s) \<le> 15 \<Longrightarrow> remove_gutenberg_boilerplate s = s"
  by (simp add: remove_gutenberg_boilerplate_def)

lemma boilerplate_long:
  "15 < length (split_nl s) \<Longrightarrow>
     remove_gutenberg_boilerplate s = join_str [NL] (drop 40 (split_nl s))"
  by (simp add: remove_gutenberg_boilerplate_def Let_def)

lemma boilerplate_few_lines:
  "15 < length (split_nl s) \<Longrightarrow> length (split_nl s) \<le> 40 \<Longrightarrow>
     remove_gutenberg_boilerplate s = []"
  by (simp add: boilerplate_long)

lemma boilerplate_many_lines:
  assumes "40 < length (split_nl s)"
  shows "split_nl (remove_gutenberg_boilerplate s) = drop 40 (split_nl s)"
proof -
  from assms have kept: "drop 40 (split_nl s) \<noteq> []"
    by simp
  have "\<forall>l \<in> set (drop 40 (split_nl s)). NL \<notin> set l"
    using split_nl_no_newline in_set_dropD by fast
  with kept have "split_nl (join_str [NL] (drop 40 (split_nl s))) = drop 40 (split_nl s)"
    by (rule split_join_lines)
  with assms show ?thesis
    by (simp add: boilerplate_long)
qed

lemma boilerplate_line_chars:
  assumes "l \<in> set (split_nl (remove_gutenberg_boilerplate s))"
  shows "set l \<subseteq> set s"
proof (cases "length (split_nl s) \<le> 15")
  case True
  with assms show ?thesis
    by (simp add: boilerplate_short split_nl_chars)
next
  case False
  show ?thesis
  proof (cases "length (split_nl s) \<le> 40")
    case True
    with False assms show ?thesis
      by (simp add: boilerplate_few_lines)
  next
    case False
    with assms have "l \<in> set (drop 40 (split_nl s))"
      by (simp add: boilerplate_many_lines)
    then have "l \<in> set (split_nl s)"
      by (rule in_set_dropD)
    then show ?thesis
      by (rule split_nl_chars)
  qed
qed

section \<open>The boilerplate stripper\<close>

text \<open>
  Claim C5, as the spec states it, ties the number of lines removed from a text of more
  than 15 lines to \<open>max(0, total_lines - 40)\<close>. A text of 41 lines (40 empty lines and a
  last line \<open>x\<close>) comes back as its last line: 40 lines are removed, where the claim says 1.
\<close>

theorem boilerplate_removed_count_counterexample:
  "15 < length (split_nl (replicate 40 NL @ [120])) \<and>
   remove_gutenberg_boilerplate (replicate 40 NL @ [120]) = [120] \<and>
   int (length (split_nl (replicate 40 NL @ [120])))
     - int (length (split_nl (remove_gutenberg_boilerplate (replicate 40 NL @ [120]))))
   \<noteq> max 0 (int (length (split_nl (replicate 40 NL @ [120]))) - 40)"
  by code_simp

text \<open>
  Claim C5, amended: \<open>remove_gutenberg_boilerplate\<close> is total; it returns a text of at
  most 15 lines unchanged; for a text of more than 15 lines it returns the lines from index
  40 onward joined by newline, which is the empty text when there are at most 40 lines and
  otherwise a text whose lines are exactly those lines. Counted on the result, as \<open>split\<close>
  counts lines (the empty text is one empty line), a text of more than 15 lines comes back
  with \<open>max(1, total_lines - 40)\<close> lines: \<open>min(40, total_lines - 1)\<close> lines are removed.
\<close>

theorem boilerplate_stripper_lines:
  "(length (split_nl text) \<le> 15 \<longrightarrow> remove_gutenberg_boilerplate text = text) \<and>
   (15 < length (split_nl text) \<longrightarrow>
      remove_gutenberg_boilerplate text = join_str [NL] (drop 40 (split_nl text)) \<and>
      int (length (split_nl (remove_gutenberg_boilerplate text)))
        = max 1 (int (length (split_nl text)) - 40) \<and>
      int (length (split_nl text)) - int (length (split_nl (remove_gutenberg_boilerplate text)))
        = min 40 (int (length (split_nl text)) - 1)) \<and>
   (15 < length (split_nl text) \<and> length (split_nl text) \<le> 40 \<longrightarrow>
      remove_gutenberg_boilerplate text = []) \<and>
   (40 < length (split_nl text) \<longrightarrow>
      split_nl (remove_gutenberg_boilerplate text) = drop 40 (split_nl text))"
proof -
  let ?n = "length (split_nl text)"
  let ?r = "remove_gutenberg_boilerplate text"
  have kept: "int (length (split_nl ?r)) = max 1 (int ?n - 40)" if "15 < ?n"
  proof (cases "?n \<le> 40")
    case True
    with that have "?r = []"
      by (simp add: boilerplate_few_lines)
    with True show ?thesis
      by simp
  next
    case False
    then have "split_nl ?r = drop 40 (split_nl text)"
      by (simp add: boilerplate_many_lines)
    with False show ?thesis
      by simp
  qed
  have removed: "int ?n - int (length (split_nl ?r)) = min 40 (int ?n - 1)" if "15 < ?n"
    using kept [OF that] that by arith
  show ?thesis
  proof (intro conjI impI)
    show "?r = text" if "?n \<le> 15"
      using that by (rule boilerplate_short)
    show "?r = join_str [NL] (drop 40 (split_nl text))" if "15 < ?n"
      using that by (rule boilerplate_long)
    show "int (length (split_nl ?r)) = max 1 (int ?n - 40)" if "15 < ?n"
      using that by (rule kept)
    show "int ?n - int (length (split_nl ?r)) = min 40 (int ?n - 1)" if "15 < ?n"
      using that by (rule removed)
    show "?r = []" if "15 < ?n \<and> ?n \<le> 40"
      using that by (simp add: boilerplate_few_lines)
    show "split_nl ?r = drop 40 (split_nl text)" if "40 < ?n"
      using that by (rule boilerplate_many_lines)
  qed
qed

theorem boilerplate_stripper_lines_witness:
  "length (split_nl [97, NL, 98]) \<le> 15 \<and>
   remove_gutenberg_boilerplate [97, NL, 98] = [97, NL, 98] \<and>
   15 < length (split_nl (replicate 15 NL)) \<and>
   length (split_nl (replicate 15 NL)) \<le> 40 \<and>
   remove_gutenberg_boilerplate (replicate 15 NL) = [] \<and>
   int (length (split_nl (remove_gutenberg_boilerplate (replicate 15 NL)))) = 1 \<and>
   int (length (split_nl (replicate 15 NL)))
     - int (length (split_nl (remove_gutenberg_boilerplate (replicate 15 NL)))) = 15 \<and>
   15 < length (split_nl (replicate 40 NL @ [120])) \<and>
   40 < length (split_nl (replicate 40 NL @ [120])) \<and>
   remove_gutenberg_boilerplate (replicate 40 NL @ [120])
     = join_str [NL] (drop 40 (split_nl (replicate 40 NL @ [120]))) \<and>
   split_nl (remove_gutenberg_boilerplate (replicate 40 NL @ [120])) = [[120]] \<and>
   int (length (split_nl (replicate 40 NL @ [120])))
     - int (length (split_nl (remove_gutenberg_boilerplate (replicate 40 NL @ [120])))) = 40"
proof -
  let ?few = "replicate 15 NL"
  let ?many = "replicate 40 NL @ [120]"
  have short: "length (split_nl [97, NL, 98]) \<le> 15"
    by code_simp
  have few: "length (split_nl ?few) = 16"
    by code_simp
  have many: "length (split_nl ?many) = 41"
    by code_simp
  have last: "drop 40 (split_nl ?many) = [[120]]"
    by code_simp
  from short boilerplate_stripper_lines [of "[97, NL, 98]"]
  have a: "remove_gutenberg_boilerplate [97, NL, 98] = [97, NL, 98]"
    by blast
  have few1: "15 < length (split_nl ?few)" and few2: "length (split_nl ?few) \<le> 40"
    unfolding few by simp_all
  from few1 few2 boilerplate_stripper_lines [of ?few]
  have b: "remove_gutenberg_boilerplate ?few = []"
    by blast
  from few1 boilerplate_stripper_lines [of ?few]
  have "int (length (split_nl (remove_gutenberg_boilerplate ?few)))
          = max 1 (int (length (split_nl ?few)) - 40)"
    and "int (length (split_nl ?few)) - int (length (split_nl (remove_gutenberg_boilerplate ?few)))
          = min 40 (int (length (split_nl ?few)) - 1)"
    by blast+
  then have c: "int (length (split_nl (remove_gutenberg_boilerplate ?few))) = 1"
    and d: "int (length (split_nl ?few))
              - int (length (split_nl (remove_gutenberg_boilerplate ?few))) = 15"
    unfolding few by simp_all
  have many1: "15 < length (split_nl ?many)" and many2: "40 < length (split_nl ?many)"
    unfolding many by simp_all
  from many1 boilerplate_stripper_lines [of ?many]
  have e: "remove_gutenberg_boilerplate ?many = join_str [NL] (drop 40 (split_nl ?many))"
    and "int (length (split_nl ?many)) - int (length (split_nl (remove_gutenberg_boilerplate ?many)))
          = min 40 (int (length (split_nl ?many)) - 1)"
    by blast+
  then have g: "int (length (split_nl ?many))
                  - int (length (split_nl (remove_gutenberg_boilerplate ?many))) = 40"
    unfolding many by simp
  from many2 boilerplate_stripper_lines [of ?many]
  have "split_nl (remove_gutenberg_boilerplate ?many) = drop 40 (split_nl ?many)"
    by blast
  then have f: "split_nl (remove_gutenberg_boilerplate ?many) = [[120]]"
    by (rule trans) (rule last)
  from short a few1 few2 b c d many1 many2 e f g show ?thesis
    by (intro conjI)
qed

section \<open>Running the pipeline on plain documents\<close>

lemma utf8_len_replicate_ascii: "c < 128 \<Longrightarrow> utf8_len (replicate n c) = int n"
  by (induction n) (simp_all add: utf8_len_def utf8_width_def)

lemma utf8_encode_len_replicate_ascii:
  "c < 128 \<Longrightarrow> utf8_encode_len (replicate n c) = Inr (int n)"
  by (simp add: utf8_encode_len_def utf8_len_replicate_ascii is_surrogate_def list_ex_iff)

lemma normalize_no_newline: "NL \<notin> set s \<Longrightarrow> normalize_blank_lines s = s"
  by (induction s) auto

lemma dropWhile_none: "\<forall>c \<in> set s. \<not> P c \<Longrightarrow> dropWhile P s = s"
  by (cases s) auto

lemma strip_no_space: "\<forall>c \<in> set s. \<not> is_space c \<Longrightarrow> strip s = s"
  by (simp add: strip_def dropWhile_none)

lemma boilerplate_one_line: "NL \<notin> set s \<Longrightarrow> remove_gutenberg_boilerplate s = s"
  by (simp add: remove_gutenberg_boilerplate_def split_nl_line)

text \<open>A file of \<open>n\<close> letters \<open>a\<close>, classified as English, reaches the size accounting unchanged.\<close>

lemma process_file_letters:
  assumes "fs p ''utf-8'' None = Inr (replicate n 97)"
    and "detect (take 1000 (replicate n 97)) = Inr ''en''"
    and "100 \<le> n"
  shows "process_file fs detect m sep fb s p =
           Inr (add_document m sep (s\<lparr>stat_en := stat_en s + 1\<rparr>) (replicate n 97))"
proof -
  have clean: "normalize_blank_lines (remove_gutenberg_boilerplate (replicate n 97)) = replicate n 97"
    by (simp add: boilerplate_one_line normalize_no_newline NL_def)
  have "strip (replicate n 97) = replicate n 97"
    by (rule strip_no_space) (simp add: is_space_def)
  with assms clean show ?thesis
    by (simp add: process_file_def read_content_def is_english_using_langdetect_def Let_def
        utf8_encode_len_replicate_ascii)
qed

lemma add_document_flush:
  "current_size s + utf8_len d > m * 1024 * 1024 \<Longrightarrow>
   add_document m sep s d =
     s\<lparr>written := written s @
          [\<lparr>shard_number = file_counter s, documents = current_content s,
            shard_text = join_str sep (current_content s)\<rparr>],
       file_counter := file_counter s + 1, current_content := [d], current_size := utf8_len d\<rparr>"
  by (simp add: add_document_def Let_def write_shard_def)

lemma add_document_append:
  "current_size s + utf8_len d \<le> m * 1024 * 1024 \<Longrightarrow>
   add_document m sep s d =
     s\<lparr>current_content := current_content s @ [d], current_size := current_size s + utf8_len d\<rparr>"
  by (simp add: add_document_def Let_def)

lemma process_file_unreadable:
  assumes "fs p ''utf-8'' None = Inl e" and "e \<noteq> UnicodeDecodeError"
  shows "process_file fs detect m sep fb s p = Inl (e, s)"
  using assms by (cases e) (simp_all add: process_file_def read_content_def)

lemma process_file_fallback_fails:
  assumes "fs p ''utf-8'' None = Inl UnicodeDecodeError" and "fs p fb None = Inl e"
  shows "process_file fs detect m sep fb s p = Inl (e, s\<lparr>log := log s @ [FallbackWarning p]\<rparr>)"
  using assms by (simp add: process_file_def read_content_def Let_def)

section \<open>The size accounting\<close>

lemma acc_inv_initial: "acc_inv m initial_state"
  by (simp add: acc_inv_def initial_state_def)

lemma acc_inv_add_document:
  assumes "acc_inv m s"
  shows "acc_inv m (add_document m sep s d)"
proof (cases "current_size s + utf8_len d > m * 1024 * 1024")
  case True
  then have "add_document m sep s d =
      (write_shard sep s)\<lparr>file_counter := file_counter s + 1, current_content := [d],
                          current_size := utf8_len d\<rparr>"
    by (simp add: add_document_def Let_def)
  moreover have "within_budget m [d]"
    by (auto simp: within_budget_def)
  ultimately show ?thesis
    using assms by (simp add: acc_inv_def write_shard_def)
next
  case False
  then have "add_document m sep s d =
      s\<lparr>current_content := current_content s @ [d], current_size := current_size s + utf8_len d\<rparr>"
    by (simp add: add_document_def Let_def)
  moreover from False assms have "within_budget m (current_content s @ [d])"
    by (simp add: within_budget_def acc_inv_def)
  ultimately show ?thesis
    using assms by (simp add: acc_inv_def)
qed

lemma acc_inv_log [simp]: "acc_inv m (s\<lparr>log := l\<rparr>) = acc_inv m s"
  by (simp add: acc_inv_def)

lemma acc_inv_stat_en [simp]: "acc_inv m (s\<lparr>stat_en := k\<rparr>) = acc_inv m s"
  by (simp add: acc_inv_def)

lemma acc_inv_stat_other [simp]: "acc_inv m (s\<lparr>stat_other := k\<rparr>) = acc_inv m s"
  by (simp add: acc_inv_def)

lemma acc_inv_read_content:
  assumes "acc_inv m s"
  shows "read_content fs p fb s = Inr (c, s1) \<Longrightarrow> acc_inv m s1"
    and "read_content fs p fb s = Inl (e, s1) \<Longrightarrow> acc_inv m s1"
proof -
  have warned: "acc_inv m (s\<lparr>log := log s @ [FallbackWarning p]\<rparr>)"
    using assms by simp
  show "read_content fs p fb s = Inr (c, s1) \<Longrightarrow> acc_inv m s1"
    using assms warned
    by (cases "fs p ''utf-8'' None"; cases "fs p fb None")
       (auto simp: read_content_def Let_def split: py_error.splits)
  show "read_content fs p fb s = Inl (e, s1) \<Longrightarrow> acc_inv m s1"
    using assms warned
    by (cases "fs p ''utf-8'' None"; cases "fs p fb None")
       (auto simp: read_content_def Let_def split: py_error.splits)
qed

lemma acc_inv_process_file:
  assumes "acc_inv m s"
  shows "process_file fs detect m sep fb s p = Inr s' \<Longrightarrow> acc_inv m s'"
    and "process_file fs detect m sep fb s p = Inl (e, s') \<Longrightarrow> acc_inv m s'"
proof -
  show "process_file fs detect m sep fb s p = Inr s' \<Longrightarrow> acc_inv m s'"
  proof (cases "read_content fs p fb s")
    case (Inl err)
    then show "process_file fs detect m sep fb s p = Inr s' \<Longrightarrow> acc_inv m s'"
      by (simp add: process_file_def)
  next
    case (Inr r)
    obtain c s1 where r: "r = (c, s1)"
      by (cases r)
    with Inr assms have s1: "acc_inv m s1"
      by (simp add: acc_inv_read_content(1))
    then have "acc_inv m (add_document m sep (s1\<lparr>stat_en := stat_en s1 + 1\<rparr>) d)" for d
      by (simp add: acc_inv_add_document)
    with s1 Inr r show "process_file fs detect m sep fb s p = Inr s' \<Longrightarrow> acc_inv m s'"
      by (cases "is_english_using_langdetect detect c")
         (auto simp: process_file_def Let_def split: if_splits sum.splits)
  qed
  show "process_file fs detect m sep fb s p = Inl (e, s') \<Longrightarrow> acc_inv m s'"
  proof (cases "read_content fs p fb s")
    case (Inl err)
    with assms acc_inv_read_content(2) [of m s fs p fb e s']
    show "process_file fs detect m sep fb s p = Inl (e, s') \<Longrightarrow> acc_inv m s'"
      by (cases err) (simp add: process_file_def)
  next
    case (Inr r)
    obtain c s1 where r: "r = (c, s1)"
      by (cases r)
    with Inr assms have s1: "acc_inv m s1"
      by (simp add: acc_inv_read_content(1))
    with Inr r show "process_file fs detect m sep fb s p = Inl (e, s') \<Longrightarrow> acc_inv m s'"
      by (cases "is_english_using_langdetect detect c")
         (auto simp: process_file_def Let_def split: if_splits sum.splits)
  qed
qed

lemma acc_inv_combine_loop:
  "acc_inv m s \<Longrightarrow>
   (combine_loop fs detect m sep fb s ps = Inr s' \<longrightarrow> acc_inv m s') \<and>
   (combine_loop fs detect m sep fb s ps = Inl (e, s') \<longrightarrow> acc_inv m s')"
proof (induction ps arbitrary: s)
  case Nil
  then show ?case by auto
next
  case (Cons p ps)
  show ?case
  proof (cases "process_file fs detect m sep fb s p")
    case (Inl err)
    with Cons.prems acc_inv_process_file(2) [of m s fs detect sep fb p]
    show ?thesis by (cases err) auto
  next
    case (Inr s1)
    with Cons.prems have "acc_inv m s1"
      by (simp add: acc_inv_process_file(1))
    from Cons.IH [OF this] Inr show ?thesis by simp
  qed
qed

lemma acc_inv_final_flush: "acc_inv m s \<Longrightarrow> acc_inv m (final_flush sep s)"
  by (cases "current_content s = []") (simp_all add: final_flush_def write_shard_def acc_inv_def)

lemma add_document_at_budget:
  "current_size s + utf8_len d = m * 1024 * 1024 \<Longrightarrow>
   add_document m sep s d =
     s\<lparr>current_content := current_content s @ [d], current_size := m * 1024 * 1024\<rparr>"
  by (simp add: add_document_def Let_def)

lemma combine_files_inv:
  "(combine_files fs detect file_paths m sep fb = Inr (n, s') \<longrightarrow> acc_inv m s') \<and>
   (combine_files fs detect file_paths m sep fb = Inl (e, s') \<longrightarrow> acc_inv m s')"
proof (intro conjI impI)
  assume "combine_files fs detect file_paths m sep fb = Inr (n, s')"
  then obtain s1 where
    loop: "combine_loop fs detect m sep fb initial_state file_paths = Inr s1"
    and s': "s' = final_flush sep s1"
    by (auto simp: combine_files_def Let_def split: sum.splits)
  from acc_inv_combine_loop [OF acc_inv_initial] loop have "acc_inv m s1"
    by blast
  with s' show "acc_inv m s'"
    by (simp add: acc_inv_final_flush)
next
  assume "combine_files fs detect file_paths m sep fb = Inl (e, s')"
  then have "combine_loop fs detect m sep fb initial_state file_paths = Inl (e, s')"
    by (auto simp: combine_files_def Let_def split: sum.splits)
  with acc_inv_combine_loop [OF acc_inv_initial] show "acc_inv m s'"
    by blast
qed

text \<open>
  For every budget, also a negative one, a written shard that holds a document respects
  the budget.
\<close>

lemma nonempty_shard_budget:
  "(\<forall>n s'. combine_files fs detect file_paths max_size_mb separator fb = Inr (n, s') \<longrightarrow>
      (\<forall>f \<in> set (written s'). documents f \<noteq> [] \<longrightarrow> within_budget max_size_mb (documents f))) \<and>
   (\<forall>e s'. combine_files fs detect file_paths max_size_mb separator fb = Inl (e, s') \<longrightarrow>
      (\<forall>f \<in> set (written s'). documents f \<noteq> [] \<longrightarrow> within_budget max_size_mb (documents f)))"
proof -
  have "\<forall>f \<in> set (written s'). documents f \<noteq> [] \<longrightarrow> within_budget max_size_mb (documents f)"
    if "acc_inv max_size_mb s'" for s'
    using that by (auto simp: acc_inv_def)
  with combine_files_inv [of fs detect file_paths max_size_mb separator fb] show ?thesis
    by blast
qed

text \<open>
  For a budget \<open>max_size_mb \<ge> 0\<close> and every list of input files, the UTF-8 sizes of the
  documents of any shard that \<open>combine_files\<close> writes (also one written before an
  exception stops the run) add up to at most \<open>max_size_mb * 1024 * 1024\<close>, unless the
  shard is exactly one document that is larger than the budget by itself. The comparison
  is strict: a document that brings the shard in progress to exactly the budget is
  appended to it, and nothing is written.
\<close>

lemma shard_budget:
  assumes "0 \<le> max_size_mb"
  shows "(\<forall>n s'. combine_files fs detect file_paths max_size_mb separator fb = Inr (n, s') \<longrightarrow>
            (\<forall>f \<in> set (written s'). within_budget max_size_mb (documents f))) \<and>
         (\<forall>e s'. combine_files fs detect file_paths max_size_mb separator fb = Inl (e, s') \<longrightarrow>
            (\<forall>f \<in> set (written s'). within_budget max_size_mb (documents f))) \<and>
         (current_size s + utf8_len content = max_size_mb * 1024 * 1024 \<longrightarrow>
            add_document max_size_mb separator s content =
              s\<lparr>current_content := current_content s @ [content],
                current_size := max_size_mb * 1024 * 1024\<rparr>)"
proof -
  from assms have empty: "within_budget max_size_mb []"
    by (simp add: within_budget_def)
  have "\<forall>f \<in> set (written s'). within_budget max_size_mb (documents f)"
    if "acc_inv max_size_mb s'" for s'
    using that empty by (auto simp: acc_inv_def)
  with combine_files_inv [of fs detect file_paths max_size_mb separator fb]
  have "\<forall>n s'. combine_files fs detect file_paths max_size_mb separator fb = Inr (n, s') \<longrightarrow>
            (\<forall>f \<in> set (written s'). within_budget max_size_mb (documents f))"
    and "\<forall>e s'. combine_files fs detect file_paths max_size_mb separator fb = Inl (e, s') \<longrightarrow>
            (\<forall>f \<in> set (written s'). within_budget max_size_mb (documents f))"
    by blast+
  then show ?thesis
    using add_document_at_budget [of s content max_size_mb separator] by blast
qed

lemma shard_budget_example:
  "(0::int) \<le> 1 \<and>
   combine_files (\<lambda>p e l. Inr (replicate 200 97)) (\<lambda>s. Inr ''en'') [''a.txt'', ''b.txt''] 1
       [124] ''latin1''
     = Inr (1, \<lparr>current_content = [replicate 200 97, replicate 200 97], current_size = 400,
                file_counter = 1, stat_en = 2, stat_other = 0,
                written = [\<lparr>shard_number = 1,
                            documents = [replicate 200 97, replicate 200 97],
                            shard_text = replicate 200 97 @ [124] @ replicate 200 97\<rparr>],
                log = []\<rparr>) \<and>
   within_budget 1 [replicate 200 97, replicate 200 97] \<and>
   combine_files (\<lambda>p e l. if p = ''bad.txt'' then Inl OSError else Inr (replicate 200 97))
       (\<lambda>s. Inr ''en'') [''a.txt'', ''bad.txt'', ''c.txt''] 0 [124] ''latin1''
     = Inl (OSError, \<lparr>current_content = [replicate 200 97], current_size = 200, file_counter = 2,
                      stat_en = 1, stat_other = 0,
                      written = [\<lparr>shard_number = 1, documents = [], shard_text = []\<rparr>],
                      log = []\<rparr>) \<and>
   within_budget 0 [] \<and>
   current_size (initial_state\<lparr>current_content := [replicate 1048376 97], current_size := 1048376\<rparr>)
     + utf8_len (replicate 200 97) = 1 * 1024 * 1024 \<and>
   add_document 1 [124]
       (initial_state\<lparr>current_content := [replicate 1048376 97], current_size := 1048376\<rparr>)
       (replicate 200 97)
     = initial_state\<lparr>current_content := [replicate 1048376 97, replicate 200 97],
                      current_size := 1048576\<rparr>"
proof -
  let ?fs = "\<lambda>p e l. Inr (replicate 200 97) :: py_error + pystr"
  let ?bad = "\<lambda>p e l. if p = ''bad.txt'' then Inl OSError else Inr (replicate 200 97)"
  let ?detect = "\<lambda>s. Inr ''en'' :: py_error + string"
  let ?s = "initial_state\<lparr>current_content := [replicate 1048376 97], current_size := 1048376\<rparr>"
  have one: "(0::int) \<le> 1" and zero: "(0::int) \<le> 0"
    by simp_all
  have run: "combine_files ?fs ?detect [''a.txt'', ''b.txt''] 1 [124] ''latin1''
     = Inr (1, \<lparr>current_content = [replicate 200 97, replicate 200 97], current_size = 400,
                file_counter = 1, stat_en = 2, stat_other = 0,
                written = [\<lparr>shard_number = 1,
                            documents = [replicate 200 97, replicate 200 97],
                            shard_text = replicate 200 97 @ [124] @ replicate 200 97\<rparr>],
                log = []\<rparr>)"
    by (simp add: combine_files_def process_file_letters add_document_append initial_state_def
        utf8_len_replicate_ascii final_flush_def write_shard_def)
  have a: "process_file ?bad ?detect 0 [124] ''latin1'' s ''a.txt'' =
             Inr (add_document 0 [124] (s\<lparr>stat_en := stat_en s + 1\<rparr>) (replicate 200 97))" for s
    by (rule process_file_letters) simp_all
  have b: "process_file ?bad ?detect 0 [124] ''latin1'' s ''bad.txt'' = Inl (OSError, s)" for s
    by (rule process_file_unreadable) simp_all
  have stop: "combine_files ?bad ?detect [''a.txt'', ''bad.txt'', ''c.txt''] 0 [124] ''latin1''
     = Inl (OSError, \<lparr>current_content = [replicate 200 97], current_size = 200, file_counter = 2,
                      stat_en = 1, stat_other = 0,
                      written = [\<lparr>shard_number = 1, documents = [], shard_text = []\<rparr>],
                      log = []\<rparr>)"
    by (simp add: combine_files_def a b add_document_flush initial_state_def
        utf8_len_replicate_ascii)
  have full: "current_size ?s + utf8_len (replicate 200 97) = 1 * 1024 * 1024"
    by (simp add: utf8_len_replicate_ascii)
  from shard_budget [OF one, of ?fs ?detect "[''a.txt'', ''b.txt'']" "[124]" "''latin1''"] run
  have w1: "within_budget 1 [replicate 200 97, replicate 200 97]"
    by simp
  from shard_budget [OF zero, of ?bad ?detect "[''a.txt'', ''bad.txt'', ''c.txt'']" "[124]" "''latin1''"] stop
  have w2: "within_budget 0 []"
    by simp
  from shard_budget [OF one, of ?fs ?detect "[]" "[124]" "''latin1''" ?s "replicate 200 97"] full
  have "add_document 1 [124] ?s (replicate 200 97)
          = ?s\<lparr>current_content := current_content ?s @ [replicate 200 97],
                current_size := 1 * 1024 * 1024\<rparr>"
    by blast
  then have w3: "add_document 1 [124] ?s (replicate 200 97)
     = initial_state\<lparr>current_content := [replicate 1048376 97, replicate 200 97],
                      current_size := 1048576\<rparr>"
    by simp
  from one run w1 stop w2 full w3 show ?thesis
    by (intro conjI)
qed

text \<open>
  Claim C1 states this bound for every run. With \<open>max_size_mb = -1\<close>, which the command
  line accepts, the first document kept makes the loop write the shard in progress, which
  is empty: \<open>combined_1.txt\<close> holds no document, and its size 0 exceeds the budget of
  \<open>-1048576\<close> bytes. The write is the one that the loop makes without testing that the
  shard holds a document (see the next section); a shard that holds a document respects
  the bound for every budget (\<open>nonempty_shard_budget\<close>), and every shard does for a budget
  that is not negative (\<open>shard_budget\<close>).
\<close>

theorem negative_budget_empty_shard:
  "combine_files (\<lambda>p e l. Inr (replicate 200 97)) (\<lambda>s. Inr ''en'') [''a.txt''] (- 1) [124] ''latin1''
   = Inr (2, \<lparr>current_content = [replicate 200 97], current_size = 200, file_counter = 2,
             stat_en = 1, stat_other = 0,
             written = [\<lparr>shard_number = 1, documents = [], shard_text = []\<rparr>,
                        \<lparr>shard_number = 2, documents = [replicate 200 97],
                         shard_text = replicate 200 97\<rparr>],
             log = []\<rparr>) \<and>
   \<not> sum_list (map utf8_len []) \<le> (- 1) * 1024 * 1024 \<and>
   length ([] :: pystr list) \<noteq> 1 \<and>
   \<not> within_budget (- 1) []"
  by (simp add: combine_files_def process_file_letters add_document_flush initial_state_def
      utf8_len_replicate_ascii final_flush_def write_shard_def within_budget_def)

section \<open>Empty shards\<close>

text \<open>
  Claim C2 says that no shard without documents is ever written. The loop writes the shard
  in progress whenever the budget would be exceeded, without looking whether it holds a
  document; only the flush after the loop has that test. With \<open>max_size_mb = 1\<close> and a first
  document of 1048577 letters, \<open>combined_1.txt\<close> is written with no document and the empty
  text, and the document goes to \<open>combined_2.txt\<close>.
\<close>

theorem empty_shard_written:
  "combine_files (\<lambda>p e l. Inr (replicate 1048577 97)) (\<lambda>s. Inr ''en'') [''a.txt''] 1
       (str_of ''<|endoftext|>'') ''latin1''
   = Inr (2, \<lparr>current_content = [replicate 1048577 97], current_size = 1048577, file_counter = 2,
             stat_en = 1, stat_other = 0,
             written = [\<lparr>shard_number = 1, documents = [], shard_text = []\<rparr>,
                        \<lparr>shard_number = 2, documents = [replicate 1048577 97],
                         shard_text = replicate 1048577 97\<rparr>],
             log = []\<rparr>)"
  by (simp add: combine_files_def process_file_letters add_document_flush initial_state_def
      utf8_len_replicate_ascii final_flush_def write_shard_def)

section \<open>No input files\<close>

text \<open>
  Claim C4 says that with no input file the program reports 0 shards written. No exception
  is raised and no file is written, but \<open>combine_files\<close> returns the counter of the next
  file, which starts at 1, and the main program prints it as the number of files saved.
\<close>

theorem zero_files_report:
  "main_combine fs detect [] max_size_mb = Inr (1, initial_state) \<and>
   files_saved_report (1, initial_state) = 1 \<and>
   length (written initial_state) = 0"
  by (simp add: main_combine_def combine_files_def final_flush_def initial_state_def
      files_saved_report_def)

section \<open>The flush after the loop\<close>

text \<open>
  Claim C7: when the shard in progress holds a document, the flush after the loop writes
  exactly one more file, numbered by the file counter, whose text is the documents of that
  shard joined by the separator, in the order in which they were added (a document is
  added at the end of the shard in progress, or starts a new one); when the shard in
  progress is empty, the flush writes nothing. \<open>combine_files\<close> ends with this flush.
\<close>

theorem final_flush_writes:
  "(current_content s \<noteq> [] \<longrightarrow>
      final_flush separator s =
        s\<lparr>written := written s @
             [\<lparr>shard_number = file_counter s, documents = current_content s,
               shard_text = join_str separator (current_content s)\<rparr>]\<rparr>) \<and>
   (current_content s = [] \<longrightarrow> final_flush separator s = s) \<and>
   current_content (add_document max_size_mb separator s content) =
     (if current_size s + utf8_len content > max_size_mb * 1024 * 1024 then [content]
      else current_content s @ [content]) \<and>
   (combine_loop fs detect max_size_mb separator fb initial_state file_paths = Inr s \<longrightarrow>
      combine_files fs detect file_paths max_size_mb separator fb =
        Inr (file_counter s, final_flush separator s))"
  by (simp add: final_flush_def write_shard_def add_document_def Let_def combine_files_def)

theorem final_flush_writes_witness:
  "current_content (initial_state\<lparr>current_content := [[97], [98], [99]], current_size := 3\<rparr>) \<noteq> [] \<and>
   final_flush [124] (initial_state\<lparr>current_content := [[97], [98], [99]], current_size := 3\<rparr>)
     = initial_state\<lparr>current_content := [[97], [98], [99]], current_size := 3,
         written := [\<lparr>shard_number = 1, documents = [[97], [98], [99]],
                      shard_text = [97, 124, 98, 124, 99]\<rparr>]\<rparr> \<and>
   current_content initial_state = [] \<and>
   final_flush [124] initial_state = initial_state \<and>
   combine_loop (\<lambda>p e l. Inr (replicate 200 97)) (\<lambda>s. Inr ''en'') 1 [124] ''latin1''
       initial_state [''a.txt'', ''b.txt'']
     = Inr (initial_state\<lparr>current_content := [replicate 200 97, replicate 200 97],
                          current_size := 400, stat_en := 2\<rparr>) \<and>
   combine_files (\<lambda>p e l. Inr (replicate 200 97)) (\<lambda>s. Inr ''en'') [''a.txt'', ''b.txt''] 1
       [124] ''latin1''
     = Inr (1, initial_state\<lparr>current_content := [replicate 200 97, replicate 200 97],
                 current_size := 400, stat_en := 2,
                 written := [\<lparr>shard_number = 1,
                              documents = [replicate 200 97, replicate 200 97],
                              shard_text = replicate 200 97 @ [124] @ replicate 200 97\<rparr>]\<rparr>)"
proof -
  let ?s = "initial_state\<lparr>current_content := [[97], [98], [99]], current_size := 3\<rparr>"
  let ?fs = "\<lambda>p e l. Inr (replicate 200 97) :: py_error + pystr"
  let ?detect = "\<lambda>s. Inr ''en'' :: py_error + string"
  let ?t = "initial_state\<lparr>current_content := [replicate 200 97, replicate 200 97],
                          current_size := 400, stat_en := 2\<rparr>"
  have nonempty: "current_content ?s \<noteq> []"
    by simp
  have empty: "current_content initial_state = []"
    by (simp add: initial_state_def)
  have loop: "combine_loop ?fs ?detect 1 [124] ''latin1'' initial_state [''a.txt'', ''b.txt'']
     = Inr ?t"
    by (simp add: process_file_letters add_document_append initial_state_def
        utf8_len_replicate_ascii)
  from nonempty final_flush_writes [of ?s "[124]"]
  have "final_flush [124] ?s =
        ?s\<lparr>written := written ?s @
             [\<lparr>shard_number = file_counter ?s, documents = current_content ?s,
               shard_text = join_str [124] (current_content ?s)\<rparr>]\<rparr>"
    by blast
  then have a: "final_flush [124] ?s
     = initial_state\<lparr>current_content := [[97], [98], [99]], current_size := 3,
         written := [\<lparr>shard_number = 1, documents = [[97], [98], [99]],
                      shard_text = [97, 124, 98, 124, 99]\<rparr>]\<rparr>"
    by (simp add: initial_state_def)
  from empty final_flush_writes [of initial_state "[124]"]
  have b: "final_flush [124] initial_state = initial_state"
    by blast
  have t: "current_content ?t \<noteq> []"
    by simp
  from t final_flush_writes [of ?t "[124]"]
  have flushed: "final_flush [124] ?t =
        ?t\<lparr>written := written ?t @
             [\<lparr>shard_number = file_counter ?t, documents = current_content ?t,
               shard_text = join_str [124] (current_content ?t)\<rparr>]\<rparr>"
    by blast
  from loop
    final_flush_writes [of ?t "[124]" 1 "[]" ?fs ?detect "''latin1''" "[''a.txt'', ''b.txt'']"]
  have "combine_files ?fs ?detect [''a.txt'', ''b.txt''] 1 [124] ''latin1''
     = Inr (file_counter ?t, final_flush [124] ?t)"
    by blast
  with flushed have c: "combine_files ?fs ?detect [''a.txt'', ''b.txt''] 1 [124] ''latin1''
     = Inr (1, initial_state\<lparr>current_content := [replicate 200 97, replicate 200 97],
                 current_size := 400, stat_en := 2,
                 written := [\<lparr>shard_number = 1,
                              documents = [replicate 200 97, replicate 200 97],
                              shard_text = replicate 200 97 @ [124] @ replicate 200 97\<rparr>]\<rparr>)"
    by (simp add: initial_state_def)
  from nonempty a empty b loop c show ?thesis
    by (intro conjI)
qed

section \<open>The language check\<close>






section \<open>Failures of the read\<close>

text \<open>
  Claim C3 says that a file whose fallback read fails too is skipped with a log line and
  never stops the run. \<open>combine_files\<close> reads with \<open>utf-8\<close> first and retries once with
  the fallback encoding after a \<open>UnicodeDecodeError\<close>, but nothing catches an exception of
  the second read, nor any other exception of the first: it leaves \<open>combine_files\<close>, and
  the files that follow are not processed. Below, \<open>bad.txt\<close> cannot be decoded with
  \<open>utf-8\<close> nor with the fallback \<open>ascii\<close>, and in the second run it cannot be opened at all;
  \<open>good.txt\<close>, 200 letters classified as English, is never reached, and alone it would
  give one shard. \<open>check_file\<close>, the loop body of \<open>check_english_files\<close>, catches both.
\<close>

theorem fallback_failure_aborts:
  "combine_files (\<lambda>p e l. if p = ''bad.txt'' then Inl UnicodeDecodeError else Inr (replicate 200 97))
       (\<lambda>s. Inr ''en'') [''bad.txt'', ''good.txt''] 500 (str_of ''<|endoftext|>'') ''ascii''
     = Inl (UnicodeDecodeError, initial_state\<lparr>log := [FallbackWarning ''bad.txt'']\<rparr>) \<and>
   main_combine (\<lambda>p e l. if p = ''bad.txt'' then Inl OSError else Inr (replicate 200 97))
       (\<lambda>s. Inr ''en'') [''bad.txt'', ''good.txt''] 500
     = Inl (OSError, initial_state) \<and>
   main_combine (\<lambda>p e l. if p = ''bad.txt'' then Inl OSError else Inr (replicate 200 97))
       (\<lambda>s. Inr ''en'') [''good.txt''] 500
     = Inr (1, initial_state\<lparr>stat_en := 1, current_content := [replicate 200 97],
                 current_size := 200,
                 written := [\<lparr>shard_number = 1, documents = [replicate 200 97],
                              shard_text = replicate 200 97\<rparr>]\<rparr>) \<and>
   check_file (\<lambda>p e l. if p = ''bad.txt'' then Inl OSError else Inr (replicate 200 97))
       (\<lambda>s. Inr ''en'') ''bad.txt''
     = \<lparr>is_english = False, language = ''unknown'', error = Some (ProcessingError OSError)\<rparr>"
proof -
  let ?undecodable =
    "\<lambda>p e l. if p = ''bad.txt'' then Inl UnicodeDecodeError else Inr (replicate 200 97)"
  let ?unreadable = "\<lambda>p e l. if p = ''bad.txt'' then Inl OSError else Inr (replicate 200 97)"
  let ?detect = "\<lambda>s. Inr ''en'' :: py_error + string"
  have a: "process_file ?undecodable ?detect m sep ''ascii'' s ''bad.txt''
     = Inl (UnicodeDecodeError, s\<lparr>log := log s @ [FallbackWarning ''bad.txt'']\<rparr>)" for m sep s
    by (rule process_file_fallback_fails) simp_all
  have b: "process_file ?unreadable ?detect m sep fb s ''bad.txt'' = Inl (OSError, s)" for m sep fb s
    by (rule process_file_unreadable) simp_all
  have c: "process_file ?unreadable ?detect m sep fb s ''good.txt''
     = Inr (add_document m sep (s\<lparr>stat_en := stat_en s + 1\<rparr>) (replicate 200 97))" for m sep fb s
    by (rule process_file_letters) simp_all
  have "combine_files ?undecodable ?detect [''bad.txt'', ''good.txt''] 500
          (str_of ''<|endoftext|>'') ''ascii''
     = Inl (UnicodeDecodeError, initial_state\<lparr>log := [FallbackWarning ''bad.txt'']\<rparr>)"
    by (simp add: combine_files_def a initial_state_def)
  moreover have "main_combine ?unreadable ?detect [''bad.txt'', ''good.txt''] 500
     = Inl (OSError, initial_state)"
    by (simp add: main_combine_def combine_files_def b)
  moreover have "main_combine ?unreadable ?detect [''good.txt''] 500
     = Inr (1, initial_state\<lparr>stat_en := 1, current_content := [replicate 200 97],
                 current_size := 200,
                 written := [\<lparr>shard_number = 1, documents = [replicate 200 97],
                              shard_text = replicate 200 97\<rparr>]\<rparr>)"
    by (simp add: main_combine_def combine_files_def c add_document_append
        utf8_len_replicate_ascii initial_state_def final_flush_def write_shard_def)
  moreover have "check_file ?unreadable ?detect ''bad.txt''
     = \<lparr>is_english = False, language = ''unknown'', error = Some (ProcessingError OSError)\<rparr>"
    by (simp add: check_file_def scan_block_def failed_def)
  ultimately show ?thesis
    by (intro conjI)
qed

section \<open>Empty samples\<close>






section \<open>The cleanup diagnostic\<close>

lemma print_lines_ok:
  "\<forall>l \<in> set ls. list_all encodable l \<Longrightarrow> print_lines encodable ls = Inr ()"
  by (induction ls) (simp_all add: print_text_def)

lemma print_lines_cases:
  "print_lines encodable ls = Inr () \<or> print_lines encodable ls = Inl UnicodeEncodeError"
  by (induction ls) (simp_all add: print_text_def)

lemma take_chars: "set l \<subseteq> set s \<Longrightarrow> list_all encodable s \<Longrightarrow> list_all encodable (take n l)"
  by (auto simp: list_all_iff dest: in_set_takeD)

text \<open>What the function does once the content has been read and the division has succeeded.\<close>

lemma clean_nonempty:
  assumes "read_original fs p fb = Inr content" and "content \<noteq> []"
    and "list_all encodable (str_of (basename p))"
  shows "clean_and_verify_gutenberg encodable fs p fb =
     (case print_lines encodable (map (take 80) (take 15 (split_nl content))) of
        Inl e \<Rightarrow> Inl e
      | Inr u \<Rightarrow>
          (case print_lines encodable
                  (map (take 80)
                     (filter (\<lambda>line. strip line \<noteq> [])
                        (take 5 (split_nl (remove_gutenberg_boilerplate content))))) of
             Inl e \<Rightarrow> Inl e
           | Inr u' \<Rightarrow>
               Inr (content, remove_gutenberg_boilerplate content,
                    \<lparr>original_length = length content,
                     original_line_count = length (split_nl content),
                     cleaned_length = length (remove_gutenberg_boilerplate content),
                     cleaned_line_count = length (split_nl (remove_gutenberg_boilerplate content)),
                     removed_chars =
                       int (length content) - int (length (remove_gutenberg_boilerplate content)),
                     removed_percent =
                       of_int (int (length content)
                                 - int (length (remove_gutenberg_boilerplate content)))
                         / of_int (int (length content)) * 100\<rparr>)))"
  using assms
  by (simp add: clean_and_verify_gutenberg_def py_truediv_def print_text_def Let_def
      split: sum.splits)

lemma clean_empty:
  assumes "read_original fs p fb = Inr []" and "list_all encodable (str_of (basename p))"
  shows "clean_and_verify_gutenberg encodable fs p fb = Inl ZeroDivisionError"
  using assms
  by (simp add: clean_and_verify_gutenberg_def py_truediv_def print_text_def Let_def)

lemma clean_unnamed:
  assumes "read_original fs p fb = Inr content"
    and "\<not> list_all encodable (str_of (basename p))"
  shows "clean_and_verify_gutenberg encodable fs p fb = Inl UnicodeEncodeError"
  using assms by (simp add: clean_and_verify_gutenberg_def print_text_def Let_def)

lemma ascii_name: "list_all (\<lambda>c. c < 256) (str_of name)"
  by (simp add: str_of_def list_all_iff)

lemma clean_printable:
  assumes "read_original fs p fb = Inr content" and "content \<noteq> []"
    and "list_all encodable (str_of (basename p))"
    and "list_all encodable content"
  shows "\<exists>report. clean_and_verify_gutenberg encodable fs p fb
           = Inr (content, remove_gutenberg_boilerplate content, report)"
proof -
  have "\<forall>l \<in> set (map (take 80) (take 15 (split_nl content))). list_all encodable l"
    using assms(4) by (auto dest!: in_set_takeD split_nl_chars intro: take_chars)
  then have a: "print_lines encodable (map (take 80) (take 15 (split_nl content))) = Inr ()"
    by (rule print_lines_ok)
  have "\<forall>l \<in> set (map (take 80)
            (filter (\<lambda>line. strip line \<noteq> [])
               (take 5 (split_nl (remove_gutenberg_boilerplate content))))). list_all encodable l"
    using assms(4) by (auto dest!: in_set_takeD boilerplate_line_chars intro: take_chars)
  then have b: "print_lines encodable (map (take 80)
            (filter (\<lambda>line. strip line \<noteq> [])
               (take 5 (split_nl (remove_gutenberg_boilerplate content))))) = Inr ()"
    by (rule print_lines_ok)
  from a b show ?thesis
    by (simp add: clean_nonempty [OF assms(1,2,3)])
qed

lemma clean_outcomes:
  assumes "read_original fs p fb = Inr content" and "content \<noteq> []"
    and "list_all encodable (str_of (basename p))"
  shows "clean_and_verify_gutenberg encodable fs p fb = Inl UnicodeEncodeError \<or>
         (\<exists>report. clean_and_verify_gutenberg encodable fs p fb
            = Inr (content, remove_gutenberg_boilerplate content, report))"
proof -
  let ?removed = "print_lines encodable (map (take 80) (take 15 (split_nl content)))"
  let ?cleaned = "print_lines encodable (map (take 80)
            (filter (\<lambda>line. strip line \<noteq> [])
               (take 5 (split_nl (remove_gutenberg_boilerplate content)))))"
  note run = clean_nonempty [OF assms]
  consider "?removed = Inl UnicodeEncodeError"
    | "?removed = Inr ()" and "?cleaned = Inl UnicodeEncodeError"
    | "?removed = Inr ()" and "?cleaned = Inr ()"
    using print_lines_cases by blast
  then show ?thesis
  proof cases
    case 1
    with run show ?thesis by simp
  next
    case 2
    with run show ?thesis by simp
  next
    case 3
    with run show ?thesis by simp
  qed
qed

text \<open>
  Claim C10 says that the diagnostic completes on every file whose decoded content is not
  empty. After the division the function prints lines of the content, and \<open>print\<close> raises
  on a character that the encoding of stdout lacks: a file that holds a dash (U+2014)
  shown on a Latin-1 stdout, or a lone surrogate that the fallback \<open>unicode_escape\<close>
  decoded shown on a UTF-8 stdout.
\<close>

theorem cleanup_print_counterexample:
  "read_original (\<lambda>p e l. Inr [8212]) ''a.txt'' ''latin1'' = Inr [8212] \<and>
   [8212] \<noteq> ([] :: pystr) \<and>
   clean_and_verify_gutenberg (\<lambda>c. c < 256) (\<lambda>p e l. Inr [8212]) ''a.txt'' ''latin1''
     = Inl UnicodeEncodeError \<and>
   read_original (\<lambda>p e l. if e = ''utf-8'' then Inl UnicodeDecodeError else Inr [255, 55296])
       ''b.txt'' ''unicode_escape''
     = Inr [255, 55296] \<and>
   clean_and_verify_gutenberg (\<lambda>c. \<not> is_surrogate c)
       (\<lambda>p e l. if e = ''utf-8'' then Inl UnicodeDecodeError else Inr [255, 55296])
       ''b.txt'' ''unicode_escape''
     = Inl UnicodeEncodeError"
proof -
  have dash: "read_original (\<lambda>p e l. Inr [8212]) ''a.txt'' ''latin1'' = Inr [8212]"
    by (simp add: read_original_def)
  have lone: "read_original
       (\<lambda>p e l. if e = ''utf-8'' then Inl UnicodeDecodeError else Inr [255, 55296])
       ''b.txt'' ''unicode_escape'' = Inr [255, 55296]"
    by (simp add: read_original_def)
  have name: "list_all (\<lambda>c. \<not> is_surrogate c) (str_of (basename ''b.txt''))"
    by (simp add: str_of_def basename_def is_surrogate_def)
  have two: "[255, 55296] \<noteq> ([] :: pystr)"
    by simp
  have "clean_and_verify_gutenberg (\<lambda>c. c < 256) (\<lambda>p e l. Inr [8212]) ''a.txt'' ''latin1''
     = Inl UnicodeEncodeError"
    by (simp add: clean_nonempty [OF dash] ascii_name NL_def print_text_def)
  moreover have "clean_and_verify_gutenberg (\<lambda>c. \<not> is_surrogate c)
       (\<lambda>p e l. if e = ''utf-8'' then Inl UnicodeDecodeError else Inr [255, 55296])
       ''b.txt'' ''unicode_escape'' = Inl UnicodeEncodeError"
    unfolding clean_nonempty [OF lone two name]
    by (simp add: NL_def print_text_def is_surrogate_def)
  ultimately show ?thesis
    using dash lone by simp
qed

text \<open>
  Claim C10, amended: for every input file whose name and whose decoded content hold only
  characters that the encoding of stdout has, and whose content is not empty,
  \<open>clean_and_verify_gutenberg\<close> completes without error and returns the original and the
  cleaned text. The percentage of characters removed divides by the length of the
  original decoded content: once the file name is printed, the function fails with a
  division by zero exactly when the decoded content is empty, and on content that is not
  empty its only failure is that of \<open>print\<close>, a \<open>UnicodeEncodeError\<close>.
\<close>

theorem cleanup_division:
  "read_original fs file_path fb = Inr content \<and>
   list_all encodable (str_of (basename file_path)) \<longrightarrow>
     (content \<noteq> [] \<and> list_all encodable content \<longrightarrow>
        (\<exists>report. clean_and_verify_gutenberg encodable fs file_path fb
           = Inr (content, remove_gutenberg_boilerplate content, report))) \<and>
     (clean_and_verify_gutenberg encodable fs file_path fb = Inl ZeroDivisionError
        \<longleftrightarrow> content = []) \<and>
     (content \<noteq> [] \<longrightarrow>
        clean_and_verify_gutenberg encodable fs file_path fb = Inl UnicodeEncodeError \<or>
        (\<exists>report. clean_and_verify_gutenberg encodable fs file_path fb
           = Inr (content, remove_gutenberg_boilerplate content, report)))"
proof (intro impI conjI)
  assume "read_original fs file_path fb = Inr content \<and>
    list_all encodable (str_of (basename file_path))"
  then have r: "read_original fs file_path fb = Inr content"
    and name: "list_all encodable (str_of (basename file_path))"
    by simp_all
  show "\<exists>report. clean_and_verify_gutenberg encodable fs file_path fb
           = Inr (content, remove_gutenberg_boilerplate content, report)"
    if "content \<noteq> [] \<and> list_all encodable content"
    using r name that by (simp add: clean_printable)
  show "clean_and_verify_gutenberg encodable fs file_path fb = Inl UnicodeEncodeError \<or>
        (\<exists>report. clean_and_verify_gutenberg encodable fs file_path fb
           = Inr (content, remove_gutenberg_boilerplate content, report))"
    if "content \<noteq> []"
    using r that name by (rule clean_outcomes)
  show "clean_and_verify_gutenberg encodable fs file_path fb = Inl ZeroDivisionError
        \<longleftrightarrow> content = []"
  proof (cases "content = []")
    case True
    with r name show ?thesis by (simp add: clean_empty)
  next
    case False
    with clean_outcomes [OF r False name] show ?thesis
      by auto
  qed
qed

theorem cleanup_division_witness:
  "read_original (\<lambda>p e l. Inr [97, NL, 98]) ''a.txt'' ''latin1'' = Inr [97, NL, 98] \<and>
   list_all (\<lambda>c. c < 256) (str_of (basename ''a.txt'')) \<and>
   [97, NL, 98] \<noteq> [] \<and>
   list_all (\<lambda>c. c < 256) [97, NL, 98] \<and>
   (\<exists>report. clean_and_verify_gutenberg (\<lambda>c. c < 256) (\<lambda>p e l. Inr [97, NL, 98]) ''a.txt''
                ''latin1''
      = Inr ([97, NL, 98], remove_gutenberg_boilerplate [97, NL, 98], report)) \<and>
   read_original (\<lambda>p e l. Inr []) ''a.txt'' ''latin1'' = Inr [] \<and>
   clean_and_verify_gutenberg (\<lambda>c. c < 256) (\<lambda>p e l. Inr []) ''a.txt'' ''latin1''
     = Inl ZeroDivisionError"
proof -
  let ?fs = "\<lambda>p e l. Inr [97, NL, 98] :: py_error + pystr"
  let ?empty = "\<lambda>p e l. Inr [] :: py_error + pystr"
  let ?latin = "\<lambda>c. c < (256 :: nat)"
  have r1: "read_original ?fs ''a.txt'' ''latin1'' = Inr [97, NL, 98]"
    by (simp add: read_original_def)
  have name: "list_all ?latin (str_of (basename ''a.txt''))"
    by (rule ascii_name)
  have n1: "[97, NL, 98] \<noteq> ([] :: pystr)"
    by simp
  have p1: "list_all ?latin [97, NL, 98]"
    by (simp add: NL_def)
  from r1 name n1 p1
    cleanup_division [of ?fs "''a.txt''" "''latin1''" "[97, NL, 98]" ?latin]
  have a: "\<exists>report. clean_and_verify_gutenberg ?latin ?fs ''a.txt'' ''latin1''
      = Inr ([97, NL, 98], remove_gutenberg_boilerplate [97, NL, 98], report)"
    by blast
  have r2: "read_original ?empty ''a.txt'' ''latin1'' = Inr []"
    by (simp add: read_original_def)
  from r2 name cleanup_division [of ?empty "''a.txt''" "''latin1''" "[]" ?latin]
  have b: "clean_and_verify_gutenberg ?latin ?empty ''a.txt'' ''latin1'' = Inl ZeroDivisionError"
    by blast
  from r1 name n1 p1 a r2 b show ?thesis
    by (intro conjI)
qed

section \<open>Blank-line normalisation is idempotent\<close>

text \<open>
  What a match of \<open>\n\s*\n\<close> looks like: after the first newline it takes the run
  of whitespace up to its last newline, so no newline is left in the whitespace that
  follows the match; and there is no match at a newline exactly when the whitespace after
  it holds no newline.
\<close>

lemma is_space_NL: "is_space NL"
  by (simp add: is_space_def NL_def)

lemma backtrack_nl_None:
  "backtrack_nl k cs = None \<longleftrightarrow> (\<forall>j \<le> k. j < length cs \<longrightarrow> cs ! j \<noteq> NL)"
proof (induction k)
  case 0
  show ?case by auto
next
  case (Suc k)
  show ?case
  proof (cases "Suc k < length cs \<and> cs ! Suc k = NL")
    case True
    then show ?thesis by auto
  next
    case False
    then have "backtrack_nl (Suc k) cs = backtrack_nl k cs"
      by auto
    with Suc False show ?thesis
      by (auto simp: le_Suc_eq)
  qed
qed

lemma backtrack_nl_Some:
  "backtrack_nl k cs = Some n \<Longrightarrow>
     0 < n \<and> n \<le> Suc k \<and> n \<le> length cs \<and> cs ! (n - 1) = NL \<and>
     (\<forall>j. n \<le> j \<and> j \<le> k \<and> j < length cs \<longrightarrow> cs ! j \<noteq> NL)"
proof (induction k)
  case 0
  then show ?case by (cases cs) (auto split: if_splits)
next
  case (Suc k)
  show ?case
  proof (cases "Suc k < length cs \<and> cs ! Suc k = NL")
    case True
    with Suc.prems have "n = Suc (Suc k)"
      by simp
    with True show ?thesis by auto
  next
    case False
    with Suc.prems have "backtrack_nl k cs = Some n"
      by auto
    from Suc.IH [OF this] False show ?thesis
      by (auto simp: le_Suc_eq)
  qed
qed

lemma backtrack_nl_first:
  "cs \<noteq> [] \<Longrightarrow> cs ! 0 = NL \<Longrightarrow> (\<forall>j. 1 \<le> j \<and> j \<le> k \<and> j < length cs \<longrightarrow> cs ! j \<noteq> NL) \<Longrightarrow>
     backtrack_nl k cs = Some 1"
  by (induction k) auto

lemma space_run_end:
  "length (takeWhile is_space cs) < length cs \<Longrightarrow> cs ! length (takeWhile is_space cs) \<noteq> NL"
  using nth_length_takeWhile [of is_space cs] is_space_NL by auto

lemma match_blank_run_None:
  "match_blank_run cs = None \<longleftrightarrow> NL \<notin> set (takeWhile is_space cs)"
proof
  assume none: "match_blank_run cs = None"
  show "NL \<notin> set (takeWhile is_space cs)"
  proof
    assume "NL \<in> set (takeWhile is_space cs)"
    then obtain j where j: "j < length (takeWhile is_space cs)" "takeWhile is_space cs ! j = NL"
      by (auto simp: in_set_conv_nth)
    moreover have "length (takeWhile is_space cs) \<le> length cs"
      by (rule length_takeWhile_le)
    ultimately have "j \<le> length (takeWhile is_space cs)" "j < length cs" "cs ! j = NL"
      by (simp_all add: takeWhile_nth)
    with none show False
      by (simp add: match_blank_run_def backtrack_nl_None)
  qed
next
  assume no: "NL \<notin> set (takeWhile is_space cs)"
  have "cs ! j \<noteq> NL" if "j \<le> length (takeWhile is_space cs)" "j < length cs" for j
  proof (cases "j < length (takeWhile is_space cs)")
    case True
    then have "cs ! j \<in> set (takeWhile is_space cs)"
      using nth_mem [of j "takeWhile is_space cs"] by (simp add: takeWhile_nth)
    with no show ?thesis by auto
  next
    case False
    with that have "j = length (takeWhile is_space cs)"
      by simp
    with that show ?thesis
      by (simp add: space_run_end)
  qed
  then show "match_blank_run cs = None"
    by (simp add: match_blank_run_def backtrack_nl_None)
qed

lemma takeWhile_after_dropWhile: "takeWhile P (dropWhile P xs) = []"
  by (induction xs) auto

lemma drop_append_le: "n \<le> length xs \<Longrightarrow> drop n (xs @ ys) = drop n xs @ ys"
  by simp

lemma match_blank_run_Some:
  assumes "match_blank_run cs = Some n"
  shows "0 < n" and "n \<le> length cs" and "match_blank_run (drop n cs) = None"
proof -
  let ?run = "takeWhile is_space cs"
  from assms have bt: "backtrack_nl (length ?run) cs = Some n"
    by (simp add: match_blank_run_def)
  note facts = backtrack_nl_Some [OF bt]
  from facts show "0 < n" and len: "n \<le> length cs"
    by simp_all
  have inside: "n \<le> length ?run"
  proof (rule ccontr)
    assume "\<not> n \<le> length ?run"
    with facts have n: "n - 1 = length ?run"
      by arith
    with facts have "length ?run < length cs"
      by arith
    then have "cs ! length ?run \<noteq> NL"
      by (rule space_run_end)
    with n facts show False
      by simp
  qed
  from inside have "drop n (?run @ dropWhile is_space cs) = drop n ?run @ dropWhile is_space cs"
    by (rule drop_append_le)
  then have "drop n cs = drop n ?run @ dropWhile is_space cs"
    by (simp only: takeWhile_dropWhile_id)
  moreover have "takeWhile is_space (drop n ?run @ dropWhile is_space cs) = drop n ?run"
  proof -
    have "\<forall>x \<in> set (drop n ?run). is_space x"
      by (meson in_set_dropD set_takeWhileD)
    moreover have "takeWhile is_space (dropWhile is_space cs) = []"
      by (rule takeWhile_after_dropWhile)
    ultimately show ?thesis
      by (simp add: takeWhile_append2)
  qed
  ultimately have run': "takeWhile is_space (drop n cs) = drop n ?run"
    by simp
  have "NL \<notin> set (drop n ?run)"
  proof
    assume "NL \<in> set (drop n ?run)"
    then obtain i where i: "i < length (drop n ?run)" "drop n ?run ! i = NL"
      by (auto simp: in_set_conv_nth)
    then have "n + i < length ?run" and "?run ! (n + i) = NL"
      by simp_all
    moreover have "length ?run \<le> length cs"
      by (rule length_takeWhile_le)
    ultimately have "n \<le> n + i \<and> n + i \<le> length ?run \<and> n + i < length cs" and "cs ! (n + i) = NL"
      by (simp_all add: takeWhile_nth)
    with facts show False
      by blast
  qed
  with run' show "match_blank_run (drop n cs) = None"
    by (simp add: match_blank_run_None)
qed

lemma space_run_normalize:
  "NL \<notin> set (takeWhile is_space cs) \<Longrightarrow>
     takeWhile is_space (normalize_blank_lines cs) = takeWhile is_space cs"
proof (induction cs)
  case Nil
  show ?case by simp
next
  case (Cons c cs)
  show ?case
  proof (cases "is_space c")
    case True
    with Cons.prems have "c \<noteq> NL" and "NL \<notin> set (takeWhile is_space cs)"
      by auto
    with True Cons.IH show ?thesis
      by simp
  next
    case False
    with is_space_NL have "c \<noteq> NL"
      by auto
    with False show ?thesis
      by simp
  qed
qed

lemma match_blank_run_normalize:
  "match_blank_run cs = None \<Longrightarrow> match_blank_run (normalize_blank_lines cs) = None"
  by (simp add: match_blank_run_None space_run_normalize)

lemma match_blank_run_after_newline:
  assumes "match_blank_run r = None"
  shows "match_blank_run (NL # r) = Some 1"
proof -
  have run: "takeWhile is_space (NL # r) = NL # takeWhile is_space r"
    by (simp add: is_space_NL)
  have "(NL # r) ! j \<noteq> NL"
    if "1 \<le> j \<and> j \<le> length (takeWhile is_space (NL # r)) \<and> j < length (NL # r)" for j
  proof -
    from that obtain i where i: "j = Suc i"
      by (cases j) auto
    with that run have "i \<le> length (takeWhile is_space r)" "i < length r"
      by simp_all
    with assms have "r ! i \<noteq> NL"
      by (simp add: match_blank_run_def backtrack_nl_None)
    with i show ?thesis by simp
  qed
  then show ?thesis
    unfolding match_blank_run_def by (intro backtrack_nl_first) auto
qed

lemma normalize_examples:
  "normalize_blank_lines [97, NL, 32, NL, NL, 98] = [97, NL, NL, 98]"
  "normalize_blank_lines [97, NL, 98, NL] = [97, NL, 98, NL]"
  "normalize_blank_lines [NL, NL, NL, 32, 120, NL] = [NL, NL, 32, 120, NL]"
  by code_simp+

text \<open>
  Claim C8: replacing every match of \<open>\n\s*\n\<close> by two newlines is idempotent: on every
  text, normalising twice gives what normalising once gives.
\<close>

theorem normalize_idempotent:
  "normalize_blank_lines (normalize_blank_lines content) = normalize_blank_lines content"
proof (induction content rule: normalize_blank_lines.induct)
  case 1
  show ?case by simp
next
  case (2 c cs)
  show ?case
  proof (cases "c = NL")
    case False
    from 2(3) [OF False] False show ?thesis
      by simp
  next
    case True
    show ?thesis
    proof (cases "match_blank_run cs")
      case None
      then have "match_blank_run (normalize_blank_lines cs) = None"
        by (rule match_blank_run_normalize)
      with True None 2(1) [OF True None] show ?thesis
        by simp
    next
      case (Some n)
      then have "match_blank_run (drop n cs) = None"
        by (rule match_blank_run_Some(3))
      then have "match_blank_run (normalize_blank_lines (drop n cs)) = None"
        by (rule match_blank_run_normalize)
      then have "match_blank_run (NL # normalize_blank_lines (drop n cs)) = Some 1"
        by (rule match_blank_run_after_newline)
      with True Some 2(2) [OF True Some] show ?thesis
        by simp
    qed
  qed
qed

end
